theory Spec2Isabelle
  imports Main "HOL-Library.Sublist"
begin

section \<open>The event emitter of L5\_events\_and\_emitters/emitter.js\<close>

text \<open>
  The source is a constructor and two prototype methods:
  \<^verbatim>\<open>
  function Emitter() { this.events = {} }
  Emitter.prototype.on = function(type, eventListener) {
      this.events[type] = this.events[type] || [];
      this.events[type].push(eventListener);
  }
  Emitter.prototype.emit = function(type) {
      if(this.events[type]) {
          this.events[type].forEach(listner => { listner(); });
      }
  }
  \<close>
  The specification calls \<open>on\<close> \<open>register\<close> and \<open>emit\<close> \<open>fire\<close>.
  \<open>this.events\<close> is an ordinary object literal, so a property read on it falls through
  to \<open>Object.prototype\<close> when the object has no own property of that name. Listener
  arrays are objects that are mutated in place while \<open>forEach\<close> walks them, so they
  live in an explicit store and the registry holds references to them.
\<close>

subsection \<open>Values, errors and the machine state\<close>

type_synonym lid = nat
  \<comment> \<open>the identity of a function object: two callbacks are the same iff their ids are\<close>

type_synonym addr = nat
  \<comment> \<open>the identity of an array object: its index in the store\<close>

datatype error =
    TypeError string    \<comment> \<open>raised by the runtime\<close>
  | Raised string       \<comment> \<open>thrown by the body of a listener\<close>

datatype slot =
    Array addr          \<comment> \<open>a reference to a listener array\<close>
  | Inherited string    \<comment> \<open>the member of \<open>Object.prototype\<close> of that name: truthy, not an array\<close>

record 'w machine =
  events :: "string \<rightharpoonup> slot"    \<comment> \<open>the own properties of \<open>this.events\<close>\<close>
  heap :: "lid list list"       \<comment> \<open>the array objects, by address\<close>
  world :: 'w                   \<comment> \<open>everything else a listener can observe or change\<close>

text \<open>
  A listener is called with an argument list and runs on the machine; it returns normally
  (\<open>None\<close>) or throws, and either way leaves a machine behind. The table that gives each
  function identity its behaviour is a parameter of dispatch.
\<close>

type_synonym ('v, 'w) listener = "'v list \<Rightarrow> 'w machine \<Rightarrow> error option \<times> 'w machine"

type_synonym ('v, 'w) bodies = "lid \<Rightarrow> ('v, 'w) listener"

type_synonym 'v calls = "(lid \<times> 'v list) list"
  \<comment> \<open>the listener invocations made by one dispatch pass, in order, each with the arguments it received\<close>

subsection \<open>Property access on \<open>this.events\<close>\<close>

definition Object_prototype_keys :: "string list" where
  "Object_prototype_keys =
     [''constructor'', ''__defineGetter__'', ''__defineSetter__'', ''hasOwnProperty'',
      ''__lookupGetter__'', ''__lookupSetter__'', ''isPrototypeOf'', ''propertyIsEnumerable'',
      ''toString'', ''valueOf'', ''__proto__'', ''toLocaleString'']"

definition get_prop :: "(string \<rightharpoonup> slot) \<Rightarrow> string \<Rightarrow> slot option" where
  \<comment> \<open>\<open>obj[k]\<close>: the own property, else the inherited one, else \<open>undefined\<close> (\<open>None\<close>)\<close>
  "get_prop obj k =
     (case obj k of
        Some v \<Rightarrow> Some v
      | None \<Rightarrow> if k \<in> set Object_prototype_keys then Some (Inherited k) else None)"

definition set_prop :: "(string \<rightharpoonup> slot) \<Rightarrow> string \<Rightarrow> slot \<Rightarrow> (string \<rightharpoonup> slot)" where
  \<comment> \<open>\<open>obj[k] = v\<close>: creates or overwrites the own property; \<open>__proto__\<close> is an accessor whose
      setter is handed the prototype the object already has and creates nothing\<close>
  "set_prop obj k v = (if k = ''__proto__'' then obj else obj(k \<mapsto> v))"

definition array_at :: "lid list list \<Rightarrow> addr \<Rightarrow> lid list" where
  \<comment> \<open>the contents of the array at an address; a reference always points into the store,
      and an address outside it reads as no elements\<close>
  "array_at h a = (if a < length h then h ! a else [])"

subsection \<open>The constructor and the two methods\<close>

definition Emitter :: "'w \<Rightarrow> 'w machine" where
  "Emitter w = \<lparr>events = Map.empty, heap = [], world = w\<rparr>"

definition on :: "string \<Rightarrow> lid \<Rightarrow> 'w machine \<Rightarrow> error option \<times> 'w machine" where
  "on type eventListener m =
     (let m1 = (case get_prop (events m) type of
                  Some v \<Rightarrow> m\<lparr>events := set_prop (events m) type v\<rparr>
                | None \<Rightarrow> m\<lparr>events := set_prop (events m) type (Array (length (heap m))),
                             heap := heap m @ [[]]\<rparr>)
      in case get_prop (events m1) type of
           Some (Array a) \<Rightarrow>
             (None, m1\<lparr>heap := (heap m1)[a := array_at (heap m1) a @ [eventListener]]\<rparr>)
         | Some (Inherited f) \<Rightarrow>
             (Some (TypeError ''this.events[type].push is not a function''), m1)
         | None \<Rightarrow>
             (Some (TypeError ''Cannot read properties of undefined (reading push)''), m1))"

text \<open>
  \<open>Array.prototype.forEach\<close> reads the length once, then visits the indices below it in
  order, skipping an index the array no longer has; the callback of the source calls
  the element with no argument. The first throw ends the walk.
\<close>

fun forEach :: "('v, 'w) bodies \<Rightarrow> addr \<Rightarrow> nat list \<Rightarrow> 'w machine
                  \<Rightarrow> 'v calls \<times> error option \<times> 'w machine" where
  "forEach fns a [] m = ([], None, m)"
| "forEach fns a (k # ks) m =
     (if k < length (array_at (heap m) a) then
        (let listner = array_at (heap m) a ! k in
         case fns listner [] m of
           (Some x, m') \<Rightarrow> ([(listner, [])], Some x, m')
         | (None, m') \<Rightarrow>
             (case forEach fns a ks m' of (cs, r, m'') \<Rightarrow> ((listner, []) # cs, r, m'')))
      else forEach fns a ks m)"

definition emit :: "('v, 'w) bodies \<Rightarrow> string \<Rightarrow> 'v list \<Rightarrow> 'w machine
                  \<Rightarrow> 'v calls \<times> error option \<times> 'w machine" where
  \<comment> \<open>\<open>emit(type, ...args)\<close>: the function declares the one parameter \<open>type\<close>, so \<open>args\<close> is
      whatever else the caller passed\<close>
  "emit fns type args m =
     (case get_prop (events m) type of
        None \<Rightarrow> ([], None, m)
      | Some (Array a) \<Rightarrow> forEach fns a [0 ..< length (array_at (heap m) a)] m
      | Some (Inherited f) \<Rightarrow>
          ([], Some (TypeError ''this.events[type].forEach is not a function''), m))"

subsection \<open>The members of an emitter object\<close>

text \<open>
  A property read on an emitter finds its own property \<open>events\<close>, then the two methods
  the source puts on \<open>Emitter.prototype\<close>, then the built-in members (the
  \<open>constructor\<close> of the prototype and the members of \<open>Object.prototype\<close>).
  Calling a member that is not there raises a \<open>TypeError\<close> before anything else runs.
  The call passes \<open>type\<close> and then either a listener (for \<open>on\<close>) or the further
  arguments (for \<open>emit\<close>). The built-in members are outside this development: a
  call to one of them is \<open>None\<close>.
\<close>

datatype member = Method_on | Method_emit | Own_events | Builtin string

definition emitter_member :: "string \<Rightarrow> member option" where
  "emitter_member name =
     (if name = ''events'' then Some Own_events
      else if name = ''on'' then Some Method_on
      else if name = ''emit'' then Some Method_emit
      else if name \<in> set Object_prototype_keys then Some (Builtin name)
      else None)"

definition call_member :: "('v, 'w) bodies \<Rightarrow> string \<Rightarrow> string \<Rightarrow> lid \<Rightarrow> 'v list \<Rightarrow> 'w machine
                  \<Rightarrow> ('v calls \<times> error option \<times> 'w machine) option" where
  "call_member fns name type listener args m =
     (case emitter_member name of
        Some Method_on \<Rightarrow> Some ([], on type listener m)
      | Some Method_emit \<Rightarrow> Some (emit fns type args m)
      | Some Own_events \<Rightarrow> Some ([], Some (TypeError ''emitter.events is not a function''), m)
      | Some (Builtin b) \<Rightarrow> None
      | None \<Rightarrow> Some ([], Some (TypeError ''emitter[name] is not a function''), m))"

subsection \<open>Notions used to state the properties\<close>

definition listeners :: "'w machine \<Rightarrow> string \<Rightarrow> lid list" where
  "listeners m e = (case get_prop (events m) e of Some (Array a) \<Rightarrow> array_at (heap m) a | _ \<Rightarrow> [])"

text \<open>Every array reference of the registry points into the store.\<close>

definition well_formed :: "'w machine \<Rightarrow> bool" where
  "well_formed m \<longleftrightarrow> (\<forall>k a. events m k = Some (Array a) \<longrightarrow> a < length (heap m))"

text \<open>
  \<open>extends m m'\<close>: from \<open>m\<close> to \<open>m'\<close> the registry has only grown: every identifier
  bound to an array is still bound to the same array, no array object has gone, and
  every array has kept its elements and at most gained some at the end. This is all
  that calls of \<open>on\<close> and \<open>emit\<close> can do to it.
\<close>

definition extends :: "'w machine \<Rightarrow> 'w machine \<Rightarrow> bool" where
  "extends m m' \<longleftrightarrow>
     (\<forall>k a. events m k = Some (Array a) \<longrightarrow> events m' k = Some (Array a)) \<and>
     length (heap m) \<le> length (heap m') \<and>
     (\<forall>a. prefix (array_at (heap m) a) (array_at (heap m') a))"

text \<open>
  A listener is orderly from \<open>m0\<close> on when, called in any state the registry can grow
  into from \<open>m0\<close>, it returns normally and itself only grows the registry. A listener
  is quiet when it never changes the registry at all (it may still throw).
\<close>

definition orderly :: "('v, 'w) bodies \<Rightarrow> 'w machine \<Rightarrow> lid \<Rightarrow> bool" where
  "orderly fns m0 l \<longleftrightarrow>
     (\<forall>m. extends m0 m \<longrightarrow> fst (fns l [] m) = None \<and> extends m (snd (fns l [] m)))"

definition quiet :: "('v, 'w) bodies \<Rightarrow> lid \<Rightarrow> bool" where
  "quiet fns l \<longleftrightarrow>
     (\<forall>m. events (snd (fns l [] m)) = events m \<and> heap (snd (fns l [] m)) = heap m)"

text \<open>Every identifier that is bound to a listener array has at least one listener.\<close>

definition nonempty_sequences :: "'w machine \<Rightarrow> bool" where
  "nonempty_sequences m \<longleftrightarrow> (\<forall>k a. events m k = Some (Array a) \<longrightarrow> array_at (heap m) a \<noteq> [])"

text \<open>
  A concrete table of listeners over a console log: 0 logs \<open>hi\<close>, 2 logs \<open>hello\<close>,
  3 throws, 4 registers listener 2 for \<open>greet\<close>, every other one does nothing.
\<close>

definition demo :: "(int, string list) bodies" where
  "demo l args m =
     (if l = 0 then (None, m\<lparr>world := world m @ [''hi'']\<rparr>)
      else if l = 2 then (None, m\<lparr>world := world m @ [''hello'']\<rparr>)
      else if l = 3 then (Some (Raised ''boom''), m)
      else if l = 4 then on ''greet'' 2 m
      else (None, m))"

section \<open>Properties\<close>

subsection \<open>Growth of the registry and registration\<close>

lemma extends_refl: "extends m m"
  by (simp add: extends_def)

lemma extends_trans: "extends m1 m2 \<Longrightarrow> extends m2 m3 \<Longrightarrow> extends m1 m3"
  unfolding extends_def by (meson order_trans prefix_order.order_trans)

lemma extends_array_at: "extends m m' \<Longrightarrow> prefix (array_at (heap m) a) (array_at (heap m') a)"
  by (simp add: extends_def)

lemma orderly_mono: "extends m0 m1 \<Longrightarrow> orderly fns m0 l \<Longrightarrow> orderly fns m1 l"
  unfolding orderly_def using extends_trans by blast

lemma get_prop_Array: "get_prop obj e = Some (Array a) \<longleftrightarrow> obj e = Some (Array a)"
  by (simp add: get_prop_def split: option.splits)

lemma on_Array:
  assumes "events m e = Some (Array a)"
  shows "on e l m = (None, m\<lparr>heap := (heap m)[a := array_at (heap m) a @ [l]]\<rparr>)"
proof -
  have "set_prop (events m) e (Array a) = events m"
    using assms by (auto simp: set_prop_def)
  then show ?thesis using assms
    by (simp add: on_def get_prop_def Let_def)
qed

lemma on_None:
  assumes "get_prop (events m) e = None"
  shows "on e l m = (None, m\<lparr>events := (events m)(e \<mapsto> Array (length (heap m))),
                              heap := heap m @ [[l]]\<rparr>)"
  using assms by (auto simp: on_def get_prop_def set_prop_def Let_def array_at_def Object_prototype_keys_def split: option.splits if_splits)

lemma on_Inherited:
  assumes "get_prop (events m) e = Some (Inherited f)"
  shows "on e l m = (Some (TypeError ''this.events[type].push is not a function''),
                     m\<lparr>events := set_prop (events m) e (Inherited f)\<rparr>)"
  using assms by (auto simp: on_def get_prop_def set_prop_def Let_def split: option.splits if_splits)


lemma on_completes:
  assumes "well_formed m" and "on e l m = (None, m')"
  shows "\<exists>a. events m' e = Some (Array a) \<and> a < length (heap m') \<and>
             array_at (heap m') a = listeners m e @ [l] \<and> well_formed m'"
proof (cases "get_prop (events m) e")
  case None
  then have "m' = m\<lparr>events := (events m)(e \<mapsto> Array (length (heap m))), heap := heap m @ [[l]]\<rparr>"
    using assms(2) by (simp add: on_None)
  then show ?thesis using None assms(1)
    by (auto simp: listeners_def array_at_def well_formed_def less_Suc_eq)
next
  case (Some v)
  show ?thesis
  proof (cases v)
    case (Array a)
    with Some have own: "events m e = Some (Array a)" by (simp add: get_prop_Array)
    then have a: "a < length (heap m)" using assms(1) by (auto simp: well_formed_def)
    from own assms(2) have "m' = m\<lparr>heap := (heap m)[a := array_at (heap m) a @ [l]]\<rparr>"
      by (simp add: on_Array)
    then show ?thesis using own a assms(1)
      by (auto simp: listeners_def get_prop_def array_at_def well_formed_def)
  next
    case (Inherited f)
    then show ?thesis using Some assms(2) by (simp add: on_Inherited)
  qed
qed

lemma listeners_Array: "events m e = Some (Array a) \<Longrightarrow> listeners m e = array_at (heap m) a"
  by (simp add: listeners_def get_prop_def)

subsection \<open>Dispatch\<close>

lemma forEach_append:
  "forEach fns a (ks @ ks') m =
     (case forEach fns a ks m of
        (cs, None, m') \<Rightarrow> (case forEach fns a ks' m' of (cs', r, m'') \<Rightarrow> (cs @ cs', r, m''))
      | (cs, Some x, m') \<Rightarrow> (cs, Some x, m'))"
  by (induction ks arbitrary: m) (auto simp: Let_def split: prod.splits option.splits)

lemma prefix_nth: "prefix xs ys \<Longrightarrow> k < length xs \<Longrightarrow> ys ! k = xs ! k"
  by (auto simp: prefix_def nth_append)


lemma emit_Array: "events m e = Some (Array a) \<Longrightarrow>
    emit fns e args m = forEach fns a [0 ..< length (array_at (heap m) a)] m"
  by (simp add: emit_def get_prop_def)


text \<open>The same with the machine the pass leaves: the listeners applied one after another.\<close>

lemma forEach_orderly_machine:
  assumes "prefix ls (array_at (heap m) a)"
    and "\<forall>k\<in>set ks. k < length ls \<and> orderly fns m (ls ! k)"
  shows "forEach fns a ks m =
           (map (\<lambda>k. (ls ! k, [])) ks, None, foldl (\<lambda>s k. snd (fns (ls ! k) [] s)) m ks) \<and>
         extends m (foldl (\<lambda>s k. snd (fns (ls ! k) [] s)) m ks)"
  using assms
proof (induction ks arbitrary: m)
  case Nil
  then show ?case by (simp add: extends_refl)
next
  case (Cons k ks)
  let ?arr = "array_at (heap m) a"
  let ?step = "\<lambda>s k. snd (fns (ls ! k) [] s)"
  from Cons.prems have k: "k < length ls" and ord: "orderly fns m (ls ! k)" by simp_all
  from k Cons.prems(1) have inb: "k < length ?arr" by (meson less_le_trans prefix_length_le)
  from k Cons.prems(1) have el: "?arr ! k = ls ! k" by (rule prefix_nth[rotated])
  obtain m1 where run: "fns (ls ! k) [] m = (None, m1)" and ext: "extends m m1"
    using ord extends_refl[of m] unfolding orderly_def by (metis prod.collapse)
  have p1: "prefix ls (array_at (heap m1) a)"
    using Cons.prems(1) extends_array_at[OF ext] by (rule prefix_order.order_trans)
  have o1: "\<forall>k\<in>set ks. k < length ls \<and> orderly fns m1 (ls ! k)"
    using Cons.prems(2) orderly_mono[OF ext] by auto
  from Cons.IH[OF p1 o1]
  have rest: "forEach fns a ks m1 = (map (\<lambda>k. (ls ! k, [])) ks, None, foldl ?step m1 ks)"
    and ext': "extends m1 (foldl ?step m1 ks)"
    by simp_all
  have step: "foldl ?step m (k # ks) = foldl ?step m1 ks" using run by simp
  have "forEach fns a (k # ks) m = (map (\<lambda>k. (ls ! k, [])) (k # ks), None, foldl ?step m1 ks)"
    using inb el run rest by (simp add: Let_def)
  then show ?case using extends_trans[OF ext ext'] step by simp
qed

lemma foldl_nth_upt:
  "n \<le> length ls \<Longrightarrow> foldl (\<lambda>s k. g s (ls ! k)) m [0 ..< n] = foldl g m (take n ls)"
proof -
  assume n: "n \<le> length ls"
  have "foldl (\<lambda>s k. g s (ls ! k)) m [0 ..< n] = foldl g m (map (\<lambda>k. ls ! k) [0 ..< n])"
    by (simp add: foldl_map)
  also have "map (\<lambda>k. ls ! k) [0 ..< n] = take n ls"
    using n by (intro nth_equalityI) simp_all
  finally show ?thesis .
qed

lemma emit_orderly_machine:
  assumes "events m e = Some (Array a)"
    and "\<forall>l\<in>set (array_at (heap m) a). orderly fns m l"
  shows "emit fns e args m =
           (map (\<lambda>l. (l, [])) (array_at (heap m) a), None,
            foldl (\<lambda>s l. snd (fns l [] s)) m (array_at (heap m) a))"
proof -
  let ?ls = "array_at (heap m) a"
  have "\<forall>k\<in>set [0 ..< length ?ls]. k < length ?ls \<and> orderly fns m (?ls ! k)"
    using assms(2) by simp
  from forEach_orderly_machine[OF prefix_order.order_refl this]
  have "forEach fns a [0 ..< length ?ls] m =
      (map (\<lambda>k. (?ls ! k, [])) [0 ..< length ?ls], None,
       foldl (\<lambda>s k. snd (fns (?ls ! k) [] s)) m [0 ..< length ?ls])" by simp
  moreover have "map (\<lambda>k. (?ls ! k, [])) [0 ..< length ?ls] = map (\<lambda>l. (l, [])) ?ls"
    by (rule nth_equalityI) simp_all
  moreover have "foldl (\<lambda>s k. snd (fns (?ls ! k) [] s)) m [0 ..< length ?ls] =
      foldl (\<lambda>s l. snd (fns l [] s)) m ?ls"
    using foldl_nth_upt[of "length ?ls" ?ls "\<lambda>s l. snd (fns l [] s)" m] by simp
  ultimately show ?thesis using assms(1) by (simp add: emit_Array)
qed

lemma forEach_invoked_quiet:
  assumes "forEach fns a ks m = (cs, r, m')"
    and "\<forall>l\<in>set (map fst cs). quiet fns l"
  shows "events m' = events m \<and> heap m' = heap m"
  using assms
proof (induction ks arbitrary: m cs)
  case Nil
  then show ?case by simp
next
  case (Cons k ks)
  show ?case
  proof (cases "k < length (array_at (heap m) a)")
    case False
    then show ?thesis using Cons by simp
  next
    case True
    let ?l = "array_at (heap m) a ! k"
    obtain r1 m1 where run: "fns ?l [] m = (r1, m1)" by (cases "fns ?l [] m")
    show ?thesis
    proof (cases r1)
      case (Some x)
      with True run Cons.prems(1) have "cs = [(?l, [])]" and m': "m' = m1"
        by (auto simp: Let_def)
      with Cons.prems(2) have "quiet fns ?l" by simp
      with run m' show ?thesis unfolding quiet_def by (metis snd_conv)
    next
      case None
      obtain cs' where rest: "forEach fns a ks m1 = (cs', r, m')" and cs: "cs = (?l, []) # cs'"
        using True run None Cons.prems(1) by (auto simp: Let_def split: prod.splits)
      from cs Cons.prems(2) have "quiet fns ?l" and q: "\<forall>l\<in>set (map fst cs'). quiet fns l"
        by simp_all
      with run have same: "events m1 = events m" "heap m1 = heap m"
        unfolding quiet_def by (metis snd_conv)+
      from Cons.IH[OF rest q] show ?thesis using same by simp
    qed
  qed
qed

lemma forEach_no_args:
  "forEach fns a ks m = (cs, r, m') \<Longrightarrow> map snd cs = replicate (length cs) []"
  by (induction ks arbitrary: m cs)
     (auto simp: Let_def split: prod.splits option.splits if_splits)

lemmas run_simps = on_def emit_def get_prop_def set_prop_def array_at_def Emitter_def
  Object_prototype_keys_def demo_def Let_def call_member_def emitter_member_def





lemma emit_invoked_quiet:
  assumes "emit fns e args m = (cs, r, m')"
    and "\<forall>l\<in>set (map fst cs). quiet fns l"
  shows "events m' = events m \<and> heap m' = heap m"
proof (cases "get_prop (events m) e")
  case None
  then show ?thesis using assms(1) by (simp add: emit_def)
next
  case (Some v)
  show ?thesis
  proof (cases v)
    case (Array a)
    with Some assms(1)
    have "forEach fns a [0 ..< length (array_at (heap m) a)] m = (cs, r, m')"
      by (simp add: emit_def)
    from forEach_invoked_quiet[OF this assms(2)] show ?thesis .
  next
    case (Inherited f)
    then show ?thesis using Some assms(1) by (simp add: emit_def)
  qed
qed

lemma emit_no_listeners:
  assumes "listeners m e = []" and "\<forall>f. get_prop (events m) e \<noteq> Some (Inherited f)"
  shows "emit fns e args m = ([], None, m)"
proof (cases "get_prop (events m) e")
  case None
  then show ?thesis by (simp add: emit_def)
next
  case (Some v)
  with assms(2) obtain a where "v = Array a" by (cases v) auto
  with Some assms(1) show ?thesis by (simp add: emit_def listeners_def)
qed

lemma nonempty_sequences_Emitter: "nonempty_sequences (Emitter w)"
  by (simp add: nonempty_sequences_def Emitter_def)

lemma on_nonempty_sequences:
  assumes "nonempty_sequences m"
  shows "nonempty_sequences (snd (on e f m))"
proof (cases "get_prop (events m) e")
  case None
  then have "events m e = None" by (simp add: get_prop_def split: option.splits)
  then show ?thesis using None assms
    by (auto simp: on_None nonempty_sequences_def array_at_def nth_append split: if_splits)
next
  case (Some v)
  show ?thesis
  proof (cases v)
    case (Array a)
    with Some have "events m e = Some (Array a)" by (simp add: get_prop_Array)
    then show ?thesis using assms
      by (auto simp: on_Array nonempty_sequences_def array_at_def nth_list_update split: if_splits)
  next
    case (Inherited g)
    then show ?thesis using Some assms
      by (auto simp: on_Inherited nonempty_sequences_def set_prop_def get_prop_def split: if_splits option.splits)
  qed
qed

lemma on_creates_key_with_first_entry:
  assumes "get_prop (events m) e = None"
  shows "fst (on e f m) = None \<and> listeners (snd (on e f m)) e = [f]"
  using assms
  by (auto simp: on_None listeners_def get_prop_def array_at_def split: option.splits)

subsection \<open>Registration followed by dispatch\<close>

lemma on_on_emit_runs_in_insertion_order:
  assumes "well_formed m"
    and "on e f1 m = (None, m1)"
    and "on e f2 m1 = (None, m2)"
    and "\<forall>l\<in>set (listeners m e @ [f1, f2]). orderly fns m2 l"
  shows "listeners m2 e = listeners m e @ [f1, f2] \<and>
         emit fns e args m2 =
           (map (\<lambda>l. (l, [])) (listeners m e @ [f1, f2]), None,
            foldl (\<lambda>s l. snd (fns l [] s)) m2 (listeners m e @ [f1, f2]))"
proof -
  from on_completes[OF assms(1,2)] obtain a1 where
    1: "events m1 e = Some (Array a1)" "array_at (heap m1) a1 = listeners m e @ [f1]" "well_formed m1"
    by blast
  from on_completes[OF 1(3) assms(3)] obtain a2 where
    2: "events m2 e = Some (Array a2)" "array_at (heap m2) a2 = listeners m1 e @ [f2]"
    by blast
  from 1 have "listeners m1 e = listeners m e @ [f1]" by (simp add: listeners_Array)
  with 2 have arr: "array_at (heap m2) a2 = listeners m e @ [f1, f2]" by simp
  with assms(4) have "\<forall>l\<in>set (array_at (heap m2) a2). orderly fns m2 l" by simp
  from emit_orderly_machine[OF 2(1) this, of args] arr 2(1) show ?thesis
    by (simp add: listeners_Array)
qed

lemma greet_pair_run:
  "emit demo ''greet'' [] (snd (on ''greet'' 2 (snd (on ''greet'' 0 (Emitter [])))))
     = ([(0, []), (2, [])], None,
        \<lparr>events = [''greet'' \<mapsto> Array 0], heap = [[0, 2]], world = [''hi'', ''hello'']\<rparr>)"
  by (simp add: run_simps upt_rec)

lemma greet_same_callback_run:
  "emit demo ''greet'' [] (snd (on ''greet'' 0 (snd (on ''greet'' 0 (Emitter [])))))
     = ([(0, []), (0, [])], None,
        \<lparr>events = [''greet'' \<mapsto> Array 0], heap = [[0, 0]], world = [''hi'', ''hi'']\<rparr>)"
  by (simp add: run_simps upt_rec)

section \<open>The properties of the specification\<close>

subsection \<open>Order of dispatch\<close>

text \<open>
  C1. For every identifier \<open>e\<close>, after \<open>on(e, f1)\<close> followed by \<open>on(e, f2)\<close>,
  \<open>emit(e)\<close> should invoke \<open>f1\<close> before \<open>f2\<close>, listeners being invoked in their
  insertion order. The code does so wherever the two registrations complete: the pass
  then applies the listeners \<open>e\<close> had before, then \<open>f1\<close>, then \<open>f2\<close>, one after
  another to the machine (lemmas \<open>on_on_emit_runs_in_insertion_order\<close>,
  \<open>greet_pair_run\<close>). For \<open>e = "toString"\<close> on a new emitter it does not: both
  registrations raise a \<open>TypeError\<close> and add no entry, and \<open>emit("toString")\<close> raises
  and invokes neither \<open>f1\<close> nor \<open>f2\<close>.
\<close>

theorem on_on_emit_inherited_name_raises:
  "on ''toString'' f1 (Emitter w) =
     (Some (TypeError ''this.events[type].push is not a function''),
      \<lparr>events = [''toString'' \<mapsto> Inherited ''toString''], heap = [], world = w\<rparr>) \<and>
   on ''toString'' f2 \<lparr>events = [''toString'' \<mapsto> Inherited ''toString''], heap = [], world = w\<rparr> =
     (Some (TypeError ''this.events[type].push is not a function''),
      \<lparr>events = [''toString'' \<mapsto> Inherited ''toString''], heap = [], world = w\<rparr>) \<and>
   emit fns ''toString'' args \<lparr>events = [''toString'' \<mapsto> Inherited ''toString''], heap = [], world = w\<rparr> =
     ([], Some (TypeError ''this.events[type].forEach is not a function''),
      \<lparr>events = [''toString'' \<mapsto> Inherited ''toString''], heap = [], world = w\<rparr>)"
  by (simp add: run_simps)

subsection \<open>Arguments of \<open>emit\<close>\<close>

text \<open>
  C2, as the code has it. \<open>emit\<close> declares the single parameter \<open>type\<close> and calls
  each listener as \<open>listner()\<close>: whatever else the caller passes is dropped. A pass is
  the same for every argument tuple, and every listener it invokes receives no
  argument at all.
\<close>

theorem emit_passes_no_arguments:
  "emit fns e args m = emit fns e [] m \<and>
   map snd (fst (emit fns e args m)) = replicate (length (fst (emit fns e args m))) []"
proof -
  have "map snd (fst (emit fns e args m)) = replicate (length (fst (emit fns e args m))) []"
  proof (cases "get_prop (events m) e")
    case None
    then show ?thesis by (simp add: emit_def)
  next
    case (Some v)
    show ?thesis
    proof (cases v)
      case (Array a)
      obtain cs r m' where "forEach fns a [0 ..< length (array_at (heap m) a)] m = (cs, r, m')"
        by (metis prod.collapse)
      then show ?thesis using Some Array forEach_no_args[of fns a _ m cs r m']
        by (simp add: emit_def)
    next
      case (Inherited f)
      then show ?thesis using Some by (simp add: emit_def)
    qed
  qed
  moreover have "emit fns e args m = emit fns e [] m" by (simp add: emit_def)
  ultimately show ?thesis by simp
qed

text \<open>
  The claim C2 as stated (every listener receives the arguments of \<open>emit\<close>) fails:
  with the one listener 0 registered for \<open>greet\<close>, \<open>emit("greet", 1, 2, 3)\<close> does
  not call it with \<open>(1, 2, 3)\<close>.
\<close>

theorem emit_passes_arguments_counterexample:
  "map snd (fst (emit demo ''greet'' [1, 2, 3] (snd (on ''greet'' 0 (Emitter []))))) \<noteq> [[1, 2, 3]]"
  by (simp add: run_simps upt_rec)

subsection \<open>One-shot registration and removal\<close>







subsection \<open>Dispatch without listeners\<close>

text \<open>
  C5. \<open>emit(e)\<close> for an identifier with no registered listener should invoke nothing
  and raise nothing. It does so for an identifier that names no member of
  \<open>Object.prototype\<close> (lemma \<open>emit_no_listeners\<close>). On a new emitter, where no
  identifier has a listener, \<open>emit("toString")\<close> raises a \<open>TypeError\<close>: the read
  \<open>this.events["toString"]\<close> finds the inherited function, which is truthy and has
  no \<open>forEach\<close>.
\<close>

theorem emit_inherited_name_raises:
  "emit fns ''toString'' args (Emitter w) =
     ([], Some (TypeError ''this.events[type].forEach is not a function''), Emitter w)"
  by (simp add: emit_def get_prop_def Emitter_def Object_prototype_keys_def)

subsection \<open>A listener that throws\<close>

text \<open>
  C6. When the listeners of \<open>e\<close> are \<open>pre\<close>, then \<open>t\<close>, then \<open>post\<close>, the listeners
  of \<open>pre\<close> are orderly, and \<open>t\<close>, called on the machine that the listeners of \<open>pre\<close>
  leave, throws \<open>x\<close> and leaves \<open>m'\<close>, then \<open>emit(e)\<close> invokes the listeners of
  \<open>pre\<close> and then \<open>t\<close>, the error \<open>x\<close> leaves \<open>emit\<close>, and the machine after the
  pass is \<open>m'\<close>: the listeners of \<open>pre\<close> have run, and no listener of \<open>post\<close> has
  been invoked or has had any effect. With three listeners of which the second throws
  (\<open>pre\<close> and \<open>post\<close> of one listener each), listener 1 runs, the error of listener 2
  propagates, and listener 3 is never invoked.
\<close>

theorem listener_failure_aborts_pass:
  assumes "events m e = Some (Array a)"
    and "array_at (heap m) a = pre @ t # post"
    and "\<forall>l\<in>set pre. orderly fns m l"
    and "fns t [] (foldl (\<lambda>s l. snd (fns l [] s)) m pre) = (Some x, m')"
  shows "emit fns e args m = (map (\<lambda>l. (l, [])) (pre @ [t]), Some x, m')"
proof -
  let ?ls = "pre @ t # post"
  let ?n = "length pre"
  let ?m1 = "foldl (\<lambda>s l. snd (fns l [] s)) m pre"
  have split: "[0 ..< length ?ls] = [0 ..< ?n] @ ?n # [Suc ?n ..< length ?ls]"
    by (metis (no_types, lifting) add_Suc_right length_Cons length_append less_add_Suc1 upt_add_eq_append upt_conv_Cons zero_le)
  have pre: "\<forall>k\<in>set [0 ..< ?n]. k < length ?ls \<and> orderly fns m (?ls ! k)"
    using assms(3) by (auto simp: nth_append)
  have "prefix ?ls (array_at (heap m) a)" using assms(2) by simp
  from forEach_orderly_machine[OF this pre]
  have first: "forEach fns a [0 ..< ?n] m =
      (map (\<lambda>k. (?ls ! k, [])) [0 ..< ?n], None, foldl (\<lambda>s k. snd (fns (?ls ! k) [] s)) m [0 ..< ?n])"
    and ext0: "extends m (foldl (\<lambda>s k. snd (fns (?ls ! k) [] s)) m [0 ..< ?n])" by simp_all
  have m1: "foldl (\<lambda>s k. snd (fns (?ls ! k) [] s)) m [0 ..< ?n] = ?m1"
    using foldl_nth_upt[of ?n ?ls "\<lambda>s l. snd (fns l [] s)" m] by simp
  have cs: "map (\<lambda>k. (?ls ! k, [])) [0 ..< ?n] = map (\<lambda>l. (l, [])) pre"
    by (rule nth_equalityI) (simp_all add: nth_append)
  from ext0 m1 have ext: "extends m ?m1" by simp
  have pfx: "prefix ?ls (array_at (heap ?m1) a)"
    using extends_array_at[OF ext, of a] assms(2) by simp
  then have inb: "?n < length (array_at (heap ?m1) a)"
    using prefix_length_le by fastforce
  have el: "array_at (heap ?m1) a ! ?n = t"
    using prefix_nth[OF pfx, of ?n] by simp
  have "forEach fns a (?n # [Suc ?n ..< length ?ls]) ?m1 = ([(t, [])], Some x, m')"
    using inb el assms(4) by (simp add: Let_def)
  with first cs m1 have "forEach fns a [0 ..< length ?ls] m = (map (\<lambda>l. (l, [])) pre @ [(t, [])], Some x, m')"
    unfolding split forEach_append by simp
  then show ?thesis using assms(1,2) by (simp add: emit_Array)
qed

theorem listener_failure_aborts_pass_witness:
  "emit demo ''greet'' [] (snd (on ''greet'' 2 (snd (on ''greet'' 3 (snd (on ''greet'' 0 (Emitter []))))))) =
     ([(0, []), (3, [])], Some (Raised ''boom''),
      \<lparr>events = [''greet'' \<mapsto> Array 0], heap = [[0, 3, 2]], world = [''hi'']\<rparr>)"
proof -
  let ?m = "snd (on ''greet'' 2 (snd (on ''greet'' 3 (snd (on ''greet'' 0 (Emitter ([]::string list)))))))"
  let ?m' = "\<lparr>events = [''greet'' \<mapsto> Array 0], heap = [[0, 3, 2]], world = [''hi'']\<rparr>"
  have m: "?m = \<lparr>events = [''greet'' \<mapsto> Array 0], heap = [[0, 3, 2]], world = []\<rparr>"
    by (simp add: run_simps)
  have slot: "events ?m ''greet'' = Some (Array 0)" by (simp add: m)
  have arr: "array_at (heap ?m) 0 = [0] @ 3 # [2]" by (simp add: m array_at_def)
  have ord: "\<forall>l\<in>set [0]. orderly demo ?m l" by (simp add: orderly_def demo_def extends_def)
  have thr: "demo 3 [] (foldl (\<lambda>s l. snd (demo l [] s)) ?m [0]) = (Some (Raised ''boom''), ?m')"
    by (simp add: m demo_def)
  from listener_failure_aborts_pass[OF slot arr ord thr, of "[]"] show ?thesis by simp
qed

subsection \<open>Registration during a pass\<close>



subsection \<open>Duplicate registration\<close>

text \<open>
  C8. For every identifier \<open>e\<close>, \<open>on(e, f)\<close> twice with the same callback should
  create two entries, and a single \<open>emit(e)\<close> should invoke \<open>f\<close> twice. The code does
  so wherever the two registrations complete: the sequence of \<open>e\<close> gains two entries
  \<open>f\<close> and the pass applies \<open>f\<close> twice to the machine, with no duplicate
  suppression (lemmas \<open>on_on_emit_runs_in_insertion_order\<close> with \<open>f1 = f2\<close>,
  \<open>greet_same_callback_run\<close>). For \<open>e = "constructor"\<close> on a new emitter it does
  not: both registrations raise a \<open>TypeError\<close>, the identifier has no entry at all
  afterwards, and \<open>emit("constructor")\<close> raises and never invokes \<open>f\<close>.
\<close>

theorem same_callback_twice_inherited_name_raises:
  "on ''constructor'' f (Emitter w) =
     (Some (TypeError ''this.events[type].push is not a function''),
      \<lparr>events = [''constructor'' \<mapsto> Inherited ''constructor''], heap = [], world = w\<rparr>) \<and>
   on ''constructor'' f \<lparr>events = [''constructor'' \<mapsto> Inherited ''constructor''], heap = [], world = w\<rparr> =
     (Some (TypeError ''this.events[type].push is not a function''),
      \<lparr>events = [''constructor'' \<mapsto> Inherited ''constructor''], heap = [], world = w\<rparr>) \<and>
   listeners \<lparr>events = [''constructor'' \<mapsto> Inherited ''constructor''], heap = [], world = w\<rparr>
     ''constructor'' = [] \<and>
   emit fns ''constructor'' args \<lparr>events = [''constructor'' \<mapsto> Inherited ''constructor''], heap = [], world = w\<rparr> =
     ([], Some (TypeError ''this.events[type].forEach is not a function''),
      \<lparr>events = [''constructor'' \<mapsto> Inherited ''constructor''], heap = [], world = w\<rparr>)"
  by (simp add: run_simps listeners_def)

subsection \<open>Keys of the registry\<close>

text \<open>
  C9. Every identifier present in the registry should have a non-empty listener
  sequence, a key being created only together with its first entry. The code does so
  for an identifier that names no member of \<open>Object.prototype\<close> (lemmas
  \<open>on_creates_key_with_first_entry\<close>, \<open>on_nonempty_sequences\<close>). On a new emitter,
  \<open>on("toString", f)\<close> raises a \<open>TypeError\<close> and leaves the key \<open>toString\<close> behind,
  bound to the inherited function and with no listener: the first statement of \<open>on\<close>
  stores what the read found, the second finds no \<open>push\<close> on it.
\<close>

theorem on_inherited_name_leaves_key_without_listeners:
  "on ''toString'' f (Emitter w) =
     (Some (TypeError ''this.events[type].push is not a function''),
      \<lparr>events = [''toString'' \<mapsto> Inherited ''toString''], heap = [], world = w\<rparr>)"
  by (simp add: on_def get_prop_def set_prop_def Emitter_def Object_prototype_keys_def)

subsection \<open>Dispatch as a read of the registry\<close>

text \<open>
  C10. When every listener that a pass \<open>emit(e, ...)\<close> invokes is quiet (none changes
  the registry itself), the pass leaves the registry as it was, whatever the state,
  the identifier and the arguments, and whether the pass returns or raises: no key
  added or removed, no listener array changed.
\<close>

theorem emit_leaves_registry_unchanged:
  assumes "emit fns e args m = (cs, r, m')"
    and "\<forall>l\<in>set (map fst cs). quiet fns l"
  shows "events m' = events m \<and> heap m' = heap m"
  using assms by (rule emit_invoked_quiet)

theorem emit_leaves_registry_unchanged_witness:
  "events (snd (snd (emit demo ''greet'' [7, 8] (snd (on ''greet'' 3 (snd (on ''greet'' 0 (Emitter ([]::string list))))))))) =
     events (snd (on ''greet'' 3 (snd (on ''greet'' 0 (Emitter ([]::string list)))))) \<and>
   heap (snd (snd (emit demo ''greet'' [7, 8] (snd (on ''greet'' 3 (snd (on ''greet'' 0 (Emitter ([]::string list))))))))) =
     heap (snd (on ''greet'' 3 (snd (on ''greet'' 0 (Emitter ([]::string list))))))"
proof -
  let ?m = "snd (on ''greet'' 3 (snd (on ''greet'' 0 (Emitter ([]::string list)))))"
  let ?run = "emit demo ''greet'' [7, 8] ?m"
  have "fst ?run = [(0, []), (3, [])]"
    by (simp add: run_simps upt_rec)
  then have q: "\<forall>l\<in>set (map fst (fst ?run)). quiet demo l"
    by (simp add: quiet_def demo_def)
  have pass: "?run = (fst ?run, fst (snd ?run), snd (snd ?run))" by simp
  from emit_leaves_registry_unchanged[OF pass q] show ?thesis .
qed

end
